theory Spec2Isabelle
  imports Complex_Main "HOL-Library.Multiset"
begin

section \<open>Go values used by the pipeline\<close>

text \<open>
  A Go \<open>string\<close> is a byte sequence, here a \<open>string\<close> (a \<open>char list\<close>).
  A Go \<open>error\<close> is modelled by its message. A Go \<open>int\<close> is a 64-bit signed integer:
  it is an \<open>int\<close> here, and every addition or subtraction the program performs on one is
  wrapped with \<open>wrap64\<close>.
\<close>

datatype error = GoError (message: string)

text \<open>The line feed that \<open>fmt.Println\<close> appends and that ends the format of \<open>fmt.Printf\<close>.\<close>

definition newline :: string where
  "newline = [CHR 0x0A]"

definition wrap64 :: "int \<Rightarrow> int" where
  "wrap64 x = (x + 2 ^ 63) mod 2 ^ 64 - 2 ^ 63"

text \<open>\<open>files[i:j]\<close> for indices already checked to satisfy \<open>0 \<le> i \<le> j \<le> len(files)\<close>.\<close>

definition slice :: "'a list \<Rightarrow> int \<Rightarrow> int \<Rightarrow> 'a list" where
  "slice xs i j = take (nat (j - i)) (drop (nat i) xs)"

subsection \<open>The JSON schema types (\<open>processImagesToJson.go\<close>, lines 14 to 57)\<close>

record Resolution =
  Width :: int
  Height :: int
  Unit :: string

record Design =
  TemplateID :: string
  Resolution :: Resolution
  Type :: string
  Tags :: "string list"
  FileFormat :: string
  Orientation :: string

record Flyer =
  ID :: string
  Design :: Design
  Language :: string
  URL :: string

record Schema =
  Format :: string
  Encoding :: string
  Filetype :: string

record Metadata =
  Version :: string
  LastUpdated :: string
  TotalFlyers :: int
  URL :: string
  Schema :: Schema

record FlyersData =
  Flyers :: "Flyer list"

subsection \<open>What the program reads from its platform\<close>

text \<open>\<open>os.DirEntry\<close>: the two methods the program calls.\<close>

record DirEntry =
  Name :: string
  IsDir :: bool

text \<open>\<open>image.Rectangle\<close>, with \<open>Dx\<close> and \<open>Dy\<close> as the \<open>image\<close> package computes them.\<close>

record Rectangle =
  MinX :: int
  MinY :: int
  MaxX :: int
  MaxY :: int

definition Dx :: "Rectangle \<Rightarrow> int" where
  "Dx r = wrap64 (MaxX r - MinX r)"

definition Dy :: "Rectangle \<Rightarrow> int" where
  "Dy r = wrap64 (MaxY r - MinY r)"

datatype platform = Unix | Windows

definition Separator :: "platform \<Rightarrow> char" where
  "Separator p = (case p of Unix \<Rightarrow> CHR ''/'' | Windows \<Rightarrow> CHR 0x5C)"

definition IsPathSeparator :: "platform \<Rightarrow> char \<Rightarrow> bool" where
  "IsPathSeparator p c = (case p of Unix \<Rightarrow> c = CHR ''/'' | Windows \<Rightarrow> c = CHR 0x5C \<or> c = CHR ''/'')"

text \<open>
  The environment of one run: the operating system and the library calls whose results
  the program only passes on. \<open>ReadDir\<close> is \<open>os.ReadDir\<close> (the entries read and the
  error, if any), \<open>Open\<close> is \<open>os.Open\<close> (the contents of the file), \<open>Decode\<close> is
  \<open>image.Decode\<close> (the bounds of the image and the name of the codec that recognised the
  contents), \<open>UnicodeToUpper\<close> is \<open>strings.Map(unicode.ToUpper, s)\<close>, \<open>Join\<close> is
  \<open>filepath.Join\<close> on two elements, \<open>Now\<close> is \<open>time.Now().Format(time.RFC3339)\<close>,
  the two \<open>MarshalIndent\<close> fields are \<open>json.MarshalIndent\<close> at the two types it is
  called at (value, prefix, indent), and \<open>WriteFile\<close> is \<open>os.WriteFile\<close> (name, data,
  permission), giving the error when the write fails.
\<close>

record env =
  GOOS :: platform
  ReadDir :: "string \<Rightarrow> DirEntry list \<times> error option"
  Open :: "string \<Rightarrow> error + string"
  Decode :: "string \<Rightarrow> error + Rectangle \<times> string"
  UnicodeToUpper :: "string \<Rightarrow> string"
  Join :: "string \<Rightarrow> string \<Rightarrow> string"
  Now :: string
  MarshalIndentFlyersData :: "FlyersData \<Rightarrow> string \<Rightarrow> string \<Rightarrow> error + string"
  MarshalIndentMetadata :: "Metadata \<Rightarrow> string \<Rightarrow> string \<Rightarrow> error + string"
  WriteFile :: "string \<Rightarrow> string \<Rightarrow> nat \<Rightarrow> error option"

subsection \<open>The string and path functions of the standard library\<close>

text \<open>\<open>strings.TrimPrefix\<close> and \<open>strings.TrimSuffix\<close>.\<close>

definition TrimPrefix :: "string \<Rightarrow> string \<Rightarrow> string" where
  "TrimPrefix s pre = (if take (length pre) s = pre then drop (length pre) s else s)"

definition TrimSuffix :: "string \<Rightarrow> string \<Rightarrow> string" where
  "TrimSuffix s suf =
     (if length suf \<le> length s \<and> drop (length s - length suf) s = suf
      then take (length s - length suf) s else s)"

text \<open>
  \<open>strings.ToUpper\<close>: a string of ASCII bytes has its letters \<open>a\<close> to \<open>z\<close> moved to
  \<open>A\<close> to \<open>Z\<close>; any other string goes through the Unicode tables.
\<close>

definition upperByte :: "char \<Rightarrow> char" where
  "upperByte c =
     (if (97::nat) \<le> of_char c \<and> of_char c \<le> (122::nat)
      then char_of (of_char c - (32::nat)) else c)"

definition ToUpper :: "env \<Rightarrow> string \<Rightarrow> string" where
  "ToUpper e s =
     (if list_all (\<lambda>c. of_char c < (128::nat)) s then map upperByte s
      else UnicodeToUpper e s)"

text \<open>
  \<open>filepath.Ext\<close>: the suffix starting at the last dot of the last path element, found by
  scanning from the end of the path; empty when a separator comes first.
\<close>

fun extScan :: "platform \<Rightarrow> string \<Rightarrow> string \<Rightarrow> string" where
  "extScan p [] seen = []"
| "extScan p (c # front) seen =
     (if IsPathSeparator p c then []
      else if c = CHR ''.'' then c # seen
      else extScan p front (c # seen))"

definition Ext :: "platform \<Rightarrow> string \<Rightarrow> string" where
  "Ext p path = extScan p (rev path) []"

text \<open>\<open>filepath.ToSlash\<close>: every separator of the platform becomes a slash.\<close>

definition ToSlash :: "platform \<Rightarrow> string \<Rightarrow> string" where
  "ToSlash p path =
     (if Separator p = CHR ''/'' then path
      else map (\<lambda>c. if c = Separator p then CHR ''/'' else c) path)"

section \<open>The image inspector\<close>

text \<open>
  \<open>getImageResolutionAndOrientation\<close> (lines 123 to 156). On an error the Go function
  returns zero values beside the error; its only caller drops them, and so does \<open>Inl\<close>.
\<close>

definition getImageResolutionAndOrientation ::
  "env \<Rightarrow> string \<Rightarrow> error + int \<times> int \<times> string \<times> string" where
  "getImageResolutionAndOrientation e imagePath =
     (case Open e imagePath of
        Inl err \<Rightarrow> Inl err
      | Inr file \<Rightarrow>
          (case Decode e file of
             Inl err \<Rightarrow> Inl err
           | Inr (bounds, codec) \<Rightarrow>
               (let width = Dx bounds;
                    height = Dy bounds;
                    fileExt = ToUpper e (TrimPrefix (Ext (GOOS e) imagePath) ''.'');
                    fileExt = (if fileExt = ''JPG'' then ''JPEG'' else fileExt);
                    orientation = (if width > height then ''landscape'' else ''portrait'')
                in Inr (width, height, fileExt, orientation))))"

section \<open>The batch scheduler\<close>

subsection \<open>One worker\<close>

text \<open>
  What a worker does that others can see, in the order it does it: a value sent on the
  \<open>results\<close> channel, or a line printed on standard output.
\<close>

datatype action = is_Send: Send (flyer: Flyer) | Print (line: string)

text \<open>
  \<open>processBatch\<close> (lines 158 to 195): the \<open>for ... range files\<close> loop as recursion on
  the chunk. The result is the worker's sequence of actions; returning it is the
  deferred \<open>wg.Done()\<close>.
\<close>

fun processBatch :: "env \<Rightarrow> DirEntry list \<Rightarrow> string \<Rightarrow> string \<Rightarrow> action list" where
  "processBatch e [] imageFolder folderURL = []"
| "processBatch e (file # files) imageFolder folderURL =
     (if IsDir file then processBatch e files imageFolder folderURL
      else
        (let imagePath = Join e imageFolder (Name file)
         in case getImageResolutionAndOrientation e imagePath of
              Inl err \<Rightarrow>
                Print (''Error processing image '' @ Name file @ '': '' @ message err @ newline)
                  # processBatch e files imageFolder folderURL
            | Inr (width, height, fileExt, orientation) \<Rightarrow>
                Send \<lparr>ID = TrimSuffix (Name file) (Ext (GOOS e) (Name file)),
                      Design = \<lparr>TemplateID = ''template1'',
                                Resolution = \<lparr>Width = width, Height = height, Unit = ''px''\<rparr>,
                                Type = ''image'',
                                Tags = [''''],
                                FileFormat = fileExt,
                                Orientation = orientation\<rparr>,
                      Language = ''en-US'',
                      URL = ToSlash (GOOS e) imagePath\<rparr>
                  # processBatch e files imageFolder folderURL))"

subsection \<open>Fan-out\<close>

text \<open>
  A call either returns a value or panics; a call that never returns has no outcome
  (\<open>None\<close>).
\<close>

datatype 'a outcome = Returns 'a | Panics string

text \<open>
  The loop of \<open>BatchProcess\<close> at lines 203 to 211. \<open>spawned\<close> collects the chunk
  \<open>files[i:end]\<close> given to each \<open>go processBatch(...)\<close>, in the order of the \<open>go\<close>
  statements. The slice expression panics unless \<open>0 \<le> i \<le> end \<le> cap(files)\<close>; the last
  inequality holds because \<open>end\<close> has been clamped to \<open>len(files)\<close>. With
  \<open>batchSize = 0\<close> and a non-empty \<open>files\<close> the loop never ends.
\<close>

partial_function (option) spawnLoop ::
  "DirEntry list \<Rightarrow> int \<Rightarrow> int \<Rightarrow> DirEntry list list \<Rightarrow> DirEntry list list outcome option" where
  "spawnLoop files batchSize i spawned =
     (if i < int (length files) then
        (let end0 = wrap64 (i + batchSize);
             end = (if end0 > int (length files) then int (length files) else end0)
         in if 0 \<le> i \<and> i \<le> end
            then spawnLoop files batchSize (wrap64 (i + batchSize)) (spawned @ [slice files i end])
            else Some (Panics ''slice bounds out of range''))
      else Some (Returns spawned))"

declare spawnLoop.simps [code]

subsection \<open>Fan-in\<close>

text \<open>
  The workers run concurrently and the channel has room for every value, so the order in
  which their actions take effect is any interleaving that keeps each worker's own order.
  \<open>fanIn\<close> builds the interleaving a schedule picks: each entry of the schedule names the
  worker whose next action happens now (an entry naming no worker, or one that has
  finished, is passed over), and when the schedule is used up the remaining workers run
  one after another. The coordinator closes the channel when every worker is done, so the
  drain loop of lines 220 to 222 sees exactly the values sent.
\<close>

fun fanIn :: "nat list \<Rightarrow> 'a list list \<Rightarrow> 'a list" where
  "fanIn [] pending = concat pending"
| "fanIn (k # sched) pending =
     (if k < length pending then
        (case pending ! k of
           [] \<Rightarrow> fanIn sched pending
         | x # rest \<Rightarrow> x # fanIn sched (pending[k := rest]))
      else fanIn sched pending)"

text \<open>Every interleaving of the workers' sequences, as a relation.\<close>

inductive interleaving :: "'a list list \<Rightarrow> 'a list \<Rightarrow> bool" where
  finished: "concat pending = [] \<Longrightarrow> interleaving pending []"
| next_of: "k < length pending \<Longrightarrow> pending ! k = x # rest \<Longrightarrow>
            interleaving (pending[k := rest]) out \<Longrightarrow> interleaving pending (x # out)"

definition sent :: "action list \<Rightarrow> Flyer list" where
  "sent trace = map flyer (filter is_Send trace)"

definition printed :: "action list \<Rightarrow> string list" where
  "printed trace = map line (filter (\<lambda>a. \<not> is_Send a) trace)"

text \<open>
  \<open>BatchProcess\<close> (lines 197 to 225): the slice and the error it returns, and the lines
  its workers printed.
\<close>

definition BatchProcess ::
  "env \<Rightarrow> nat list \<Rightarrow> DirEntry list \<Rightarrow> string \<Rightarrow> string \<Rightarrow> int \<Rightarrow>
     ((Flyer list \<times> error option) \<times> string list) outcome option" where
  "BatchProcess e sched files imageFolder folderURL batchSize =
     (case spawnLoop files batchSize 0 [] of
        None \<Rightarrow> None
      | Some (Panics msg) \<Rightarrow> Some (Panics msg)
      | Some (Returns chunks) \<Rightarrow>
          (let trace = fanIn sched (map (\<lambda>chunk. processBatch e chunk imageFolder folderURL) chunks);
               flyers = sent trace
           in Some (Returns ((flyers, None), printed trace))))"

section \<open>The entry point\<close>

datatype effect = Stdout string | WriteFileCall string string

text \<open>
  What a call of \<open>ReadAndForward\<close> leaves behind: the error it returned, what it and the
  workers did to the outside in order, and the values of its locals \<open>metadata\<close> and
  \<open>FlyersData\<close> if it got as far as building them (lines 74 to 89).
\<close>

record run =
  returned :: "error option"
  effects :: "effect list"
  documents :: "(Metadata \<times> FlyersData) option"

text \<open>\<open>ReadAndForward\<close> (lines 60 to 120). The permission \<open>0644\<close> is 420.\<close>

definition ReadAndForward ::
  "env \<Rightarrow> nat list \<Rightarrow> string \<Rightarrow> string \<Rightarrow> int \<Rightarrow> run outcome option" where
  "ReadAndForward e sched imageFolder folderURL batchSize =
     (case ReadDir e imageFolder of
        (files, Some err) \<Rightarrow>
          Some (Returns \<lparr>returned = Some (GoError (''error reading directory: '' @ message err)),
                         effects = [], documents = None\<rparr>)
      | (files, None) \<Rightarrow>
          (case BatchProcess e sched files imageFolder folderURL batchSize of
             None \<Rightarrow> None
           | Some (Panics msg) \<Rightarrow> Some (Panics msg)
           | Some (Returns ((flyers, Some err), logged)) \<Rightarrow>
               Some (Returns \<lparr>returned = Some (GoError (''error processing files: '' @ message err)),
                              effects = map Stdout logged, documents = None\<rparr>)
           | Some (Returns ((flyers, None), logged)) \<Rightarrow>
               (let metadata = \<lparr>Version = ''1.0'',
                                 LastUpdated = Now e,
                                 TotalFlyers = int (length flyers),
                                 URL = folderURL,
                                 Schema = \<lparr>Format = ''JSON'', Encoding = ''UTF-8'',
                                           Filetype = ''text''\<rparr>\<rparr>;
                    flyersData = \<lparr>Flyers = flyers\<rparr>;
                    docs = Some (metadata, flyersData)
                in case MarshalIndentFlyersData e flyersData '''' ''  '' of
                     Inl err \<Rightarrow>
                       Some (Returns \<lparr>returned = Some (GoError (''error encoding JSON: '' @ message err)),
                                      effects = map Stdout logged, documents = docs\<rparr>)
                   | Inr jsonData \<Rightarrow>
                       (case MarshalIndentMetadata e metadata '''' '' '' of
                          Inl err \<Rightarrow>
                            Some (Returns \<lparr>returned = Some (GoError (''error encoding JSON: '' @ message err)),
                                           effects = map Stdout logged, documents = docs\<rparr>)
                        | Inr metaJsonData \<Rightarrow>
                            (let out = map Stdout logged
                                         @ [Stdout (jsonData @ newline), Stdout (metaJsonData @ newline)]
                                         @ [WriteFileCall ''flyers.json'' jsonData]
                             in case WriteFile e ''flyers.json'' jsonData 420 of
                                  Some err \<Rightarrow>
                                    Some (Returns \<lparr>returned = Some (GoError (''error writing flyer JSON file '' @ message err)),
                                                   effects = out, documents = docs\<rparr>)
                                | None \<Rightarrow>
                                    (let out = out @ [WriteFileCall ''imagesMetadata.json'' metaJsonData]
                                     in case WriteFile e ''imagesMetadata.json'' metaJsonData 420 of
                                          Some err \<Rightarrow>
                                            Some (Returns \<lparr>returned = Some (GoError (''error writing metadata JSON file '' @ message err)),
                                                           effects = out, documents = docs\<rparr>)
                                        | None \<Rightarrow>
                                            Some (Returns \<lparr>returned = None,
                                                           effects = out @ [Stdout (''JSON saved successfully as output.json'' @ newline)],
                                                           documents = docs\<rparr>)))))))"

section \<open>The chunks a specification would ask for\<close>

text \<open>
  The partition as the specification words it: contiguous chunks of \<open>n\<close> entries, the
  last one possibly shorter. It is compared with what \<open>spawnLoop\<close> computes.
\<close>

function chunks :: "nat \<Rightarrow> 'a list \<Rightarrow> 'a list list" where
  "chunks n xs = (if n = 0 \<or> xs = [] then [] else take n xs # chunks n (drop n xs))"
  by pat_completeness auto
termination
  by (relation "measure (\<lambda>(n, xs). length xs)") auto

declare chunks.simps [simp del]

section \<open>A sample machine\<close>

text \<open>
  A Unix machine whose directory \<open>images/\<close> holds two JPEG photographs, a text file, a
  sub-directory, a PNG picture saved under a \<open>.jpg\<close> name and a square PNG. File
  contents are named rather than spelled out.
\<close>

definition sampleFiles :: "DirEntry list" where
  "sampleFiles =
     [\<lparr>Name = ''a.jpg'', IsDir = False\<rparr>,
      \<lparr>Name = ''b.jpg'', IsDir = False\<rparr>,
      \<lparr>Name = ''notes.txt'', IsDir = False\<rparr>,
      \<lparr>Name = ''old'', IsDir = True\<rparr>,
      \<lparr>Name = ''logo.jpg'', IsDir = False\<rparr>,
      \<lparr>Name = ''icon.png'', IsDir = False\<rparr>]"

definition sampleOpen :: "string \<Rightarrow> error + string" where
  "sampleOpen path =
     (if path = ''images/a.jpg'' then Inr ''jpeg 1080x1920''
      else if path = ''images/b.jpg'' then Inr ''jpeg 1920x1080''
      else if path = ''images/notes.txt'' then Inr ''plain text''
      else if path = ''images/logo.jpg'' then Inr ''png 640x480''
      else if path = ''images/icon.png'' then Inr ''png 64x64''
      else Inl (GoError (''open '' @ path @ '': no such file or directory'')))"

definition sampleDecode :: "string \<Rightarrow> error + Rectangle \<times> string" where
  "sampleDecode file =
     (if file = ''jpeg 1080x1920''
        then Inr (\<lparr>MinX = 0, MinY = 0, MaxX = 1080, MaxY = 1920\<rparr>, ''jpeg'')
      else if file = ''jpeg 1920x1080''
        then Inr (\<lparr>MinX = 0, MinY = 0, MaxX = 1920, MaxY = 1080\<rparr>, ''jpeg'')
      else if file = ''png 640x480''
        then Inr (\<lparr>MinX = 0, MinY = 0, MaxX = 640, MaxY = 480\<rparr>, ''png'')
      else if file = ''png 64x64''
        then Inr (\<lparr>MinX = 0, MinY = 0, MaxX = 64, MaxY = 64\<rparr>, ''png'')
      else Inl (GoError ''image: unknown format''))"

definition sampleEnv :: env where
  "sampleEnv =
     \<lparr>GOOS = Unix,
      ReadDir = (\<lambda>dir. if dir = ''images/'' then (sampleFiles, None)
                        else ([], Some (GoError (''open '' @ dir @ '': no such file or directory'')))),
      Open = sampleOpen,
      Decode = sampleDecode,
      UnicodeToUpper = (\<lambda>s. s),
      Join = (\<lambda>dir name. dir @ name),
      Now = ''2024-01-01T00:00:00Z'',
      MarshalIndentFlyersData = (\<lambda>d pre ind. Inr (concat (map (\<lambda>f. ID f @ '' '') (Flyers d)))),
      MarshalIndentMetadata = (\<lambda>m pre ind. Inr (Metadata.URL m)),
      WriteFile = (\<lambda>name data perm. None)\<rparr>"

section \<open>Properties of the image inspector\<close>

text \<open>What a successful inspection has read and computed.\<close>

lemma inspector_result:
  assumes "getImageResolutionAndOrientation e imagePath = Inr (w, h, fmt, orient)"
  shows "\<exists>file bounds codec.
           Open e imagePath = Inr file \<and> Decode e file = Inr (bounds, codec) \<and>
           w = Dx bounds \<and> h = Dy bounds \<and>
           fmt = (let x = ToUpper e (TrimPrefix (Ext (GOOS e) imagePath) ''.'')
                  in if x = ''JPG'' then ''JPEG'' else x) \<and>
           orient = (if w > h then ''landscape'' else ''portrait'')"
  using assms
  by (auto simp: getImageResolutionAndOrientation_def Let_def split: sum.splits prod.splits)

text \<open>The extension \<open>filepath.Ext\<close> returns is empty or starts with a dot.\<close>

lemma Ext_shape_aux: "extScan p front seen = [] \<or> (\<exists>r. extScan p front seen = CHR ''.'' # r)"
  by (induction front arbitrary: seen) auto

lemma Ext_shape: "Ext p path = [] \<or> (\<exists>r. Ext p path = CHR ''.'' # r)"
  unfolding Ext_def by (rule Ext_shape_aux)

text \<open>Whenever the file opens and its contents decode, the inspection succeeds.\<close>

lemma inspector_succeeds:
  assumes "Open e imagePath = Inr file" and "Decode e file = Inr (bounds, codec)"
  shows "getImageResolutionAndOrientation e imagePath
           = Inr (Dx bounds, Dy bounds,
                  (let x = ToUpper e (TrimPrefix (Ext (GOOS e) imagePath) ''.'')
                   in if x = ''JPG'' then ''JPEG'' else x),
                  (if Dx bounds > Dy bounds then ''landscape'' else ''portrait''))"
  using assms by (simp add: getImageResolutionAndOrientation_def Let_def)

text \<open>
  Claim C2. For every image that opens and decodes, the inspector returns the width
  \<open>Dx\<close> and the height \<open>Dy\<close> of the decoded bounds, with the orientation
  \<open>landscape\<close> when that width is greater than that height and \<open>portrait\<close>
  otherwise. Conversely, whatever the inspector returns on success are the width and the
  height of the decoded image, and the orientation is \<open>landscape\<close> exactly when the
  width is greater than the height; in particular a square image is \<open>portrait\<close>.
\<close>

theorem orientation_by_width_and_height:
  "(\<forall>file bounds codec.
      Open e imagePath = Inr file \<and> Decode e file = Inr (bounds, codec) \<longrightarrow>
      (\<exists>fileExt.
         getImageResolutionAndOrientation e imagePath
           = Inr (Dx bounds, Dy bounds, fileExt,
                  (if Dx bounds > Dy bounds then ''landscape'' else ''portrait'')))) \<and>
   (\<forall>width height fileExt orientation.
      getImageResolutionAndOrientation e imagePath = Inr (width, height, fileExt, orientation) \<longrightarrow>
      (\<exists>file bounds codec.
         Open e imagePath = Inr file \<and> Decode e file = Inr (bounds, codec) \<and>
         width = Dx bounds \<and> height = Dy bounds) \<and>
      (orientation = ''landscape'' \<longleftrightarrow> width > height) \<and>
      (\<not> width > height \<longrightarrow> orientation = ''portrait'') \<and>
      (width = height \<longrightarrow> orientation = ''portrait''))"
proof (intro conjI allI impI)
  fix contents bounds codec
  assume "Open e imagePath = Inr contents \<and> Decode e contents = Inr (bounds, codec)"
  then show "\<exists>fileExt.
         getImageResolutionAndOrientation e imagePath
           = Inr (Dx bounds, Dy bounds, fileExt,
                  (if Dx bounds > Dy bounds then ''landscape'' else ''portrait''))"
    using inspector_succeeds [of e imagePath contents bounds codec] by blast
next
  fix width height fileExt orientation
  assume run: "getImageResolutionAndOrientation e imagePath = Inr (width, height, fileExt, orientation)"
  from inspector_result [OF run]
  show "\<exists>file bounds codec.
         Open e imagePath = Inr file \<and> Decode e file = Inr (bounds, codec) \<and>
         width = Dx bounds \<and> height = Dy bounds"
    by blast
  from inspector_result [OF run]
  show "orientation = ''landscape'' \<longleftrightarrow> width > height"
    by (auto split: if_splits)
  from inspector_result [OF run]
  show "orientation = ''portrait''" if "\<not> width > height"
    using that by (auto split: if_splits)
  from inspector_result [OF run]
  show "orientation = ''portrait''" if "width = height"
    using that by (auto split: if_splits)
qed

text \<open>
  On the sample machine the 1920 by 1080 photograph is a landscape, the 1080 by 1920
  photograph a portrait, and the square picture \<open>icon.png\<close> a portrait.
\<close>

theorem orientation_by_width_and_height_witness:
  "(\<exists>fileExt. getImageResolutionAndOrientation sampleEnv ''images/b.jpg''
       = Inr (1920, 1080, fileExt, ''landscape'')) \<and>
   (\<exists>fileExt. getImageResolutionAndOrientation sampleEnv ''images/a.jpg''
       = Inr (1080, 1920, fileExt, ''portrait'')) \<and>
   (\<exists>fileExt. getImageResolutionAndOrientation sampleEnv ''images/icon.png''
       = Inr (64, 64, fileExt, ''portrait''))"
proof -
  let ?wide = "\<lparr>MinX = 0, MinY = 0, MaxX = 1920, MaxY = 1080\<rparr>"
  let ?tall = "\<lparr>MinX = 0, MinY = 0, MaxX = 1080, MaxY = 1920\<rparr>"
  let ?square = "\<lparr>MinX = 0, MinY = 0, MaxX = 64, MaxY = 64\<rparr>"
  have sizes: "Dx ?wide = 1920" "Dy ?wide = 1080" "Dx ?tall = 1080" "Dy ?tall = 1920"
    "Dx ?square = 64" "Dy ?square = 64"
    by (simp_all add: Dx_def Dy_def wrap64_def)
  have wide: "Open sampleEnv ''images/b.jpg'' = Inr ''jpeg 1920x1080'' \<and>
              Decode sampleEnv ''jpeg 1920x1080'' = Inr (?wide, ''jpeg'')"
    by (simp add: sampleEnv_def sampleOpen_def sampleDecode_def)
  have tall: "Open sampleEnv ''images/a.jpg'' = Inr ''jpeg 1080x1920'' \<and>
              Decode sampleEnv ''jpeg 1080x1920'' = Inr (?tall, ''jpeg'')"
    by (simp add: sampleEnv_def sampleOpen_def sampleDecode_def)
  have square: "Open sampleEnv ''images/icon.png'' = Inr ''png 64x64'' \<and>
              Decode sampleEnv ''png 64x64'' = Inr (?square, ''png'')"
    by (simp add: sampleEnv_def sampleOpen_def sampleDecode_def)
  from orientation_by_width_and_height [of sampleEnv "''images/b.jpg''"] wide
  have "\<exists>fileExt. getImageResolutionAndOrientation sampleEnv ''images/b.jpg''
          = Inr (Dx ?wide, Dy ?wide, fileExt,
                 (if Dx ?wide > Dy ?wide then ''landscape'' else ''portrait''))"
    by blast
  then have landscape: "\<exists>fileExt. getImageResolutionAndOrientation sampleEnv ''images/b.jpg''
       = Inr (1920, 1080, fileExt, ''landscape'')"
    by (simp add: sizes)
  from orientation_by_width_and_height [of sampleEnv "''images/a.jpg''"] tall
  have "\<exists>fileExt. getImageResolutionAndOrientation sampleEnv ''images/a.jpg''
          = Inr (Dx ?tall, Dy ?tall, fileExt,
                 (if Dx ?tall > Dy ?tall then ''landscape'' else ''portrait''))"
    by blast
  then have portrait: "\<exists>fileExt. getImageResolutionAndOrientation sampleEnv ''images/a.jpg''
       = Inr (1080, 1920, fileExt, ''portrait'')"
    by (simp add: sizes)
  from orientation_by_width_and_height [of sampleEnv "''images/icon.png''"] square
  have "\<exists>fileExt. getImageResolutionAndOrientation sampleEnv ''images/icon.png''
          = Inr (Dx ?square, Dy ?square, fileExt,
                 (if Dx ?square > Dy ?square then ''landscape'' else ''portrait''))"
    by blast
  then have tie: "\<exists>fileExt. getImageResolutionAndOrientation sampleEnv ''images/icon.png''
       = Inr (64, 64, fileExt, ''portrait'')"
    by (simp add: sizes)
  from landscape portrait tie show ?thesis by (intro conjI)
qed

text \<open>
  Claim C6. Whenever the inspector succeeds, the format label is the extension of the
  path (which is empty or starts with a dot) without its leading dot, in upper case, with
  \<open>JPG\<close> replaced by \<open>JPEG\<close>. The contents of the file and the codec that decoded them
  have no part in it: on a machine where the same path opens to any other contents, decoded
  by any other codec, a successful inspection returns the same label.
\<close>

theorem fileFormat_from_extension:
  assumes "getImageResolutionAndOrientation e imagePath = Inr (width, height, fileExt, orientation)"
  shows "fileExt = (let x = ToUpper e (TrimPrefix (Ext (GOOS e) imagePath) ''.'')
                    in if x = ''JPG'' then ''JPEG'' else x) \<and>
         (Ext (GOOS e) imagePath = [] \<or>
          Ext (GOOS e) imagePath = CHR ''.'' # TrimPrefix (Ext (GOOS e) imagePath) ''.'') \<and>
         (\<forall>open' decode' width' height' fileExt' orientation'.
            getImageResolutionAndOrientation (e\<lparr>Open := open', Decode := decode'\<rparr>) imagePath
              = Inr (width', height', fileExt', orientation')
            \<longrightarrow> fileExt' = fileExt)"
proof (intro conjI allI impI)
  show "fileExt = (let x = ToUpper e (TrimPrefix (Ext (GOOS e) imagePath) ''.'')
                    in if x = ''JPG'' then ''JPEG'' else x)"
    using inspector_result [OF assms] by auto
next
  show "Ext (GOOS e) imagePath = [] \<or>
        Ext (GOOS e) imagePath = CHR ''.'' # TrimPrefix (Ext (GOOS e) imagePath) ''.''"
    using Ext_shape [of "GOOS e" imagePath] by (auto simp: TrimPrefix_def)
next
  fix open' decode' width' height' fileExt' orientation'
  assume "getImageResolutionAndOrientation (e\<lparr>Open := open', Decode := decode'\<rparr>) imagePath
              = Inr (width', height', fileExt', orientation')"
  from inspector_result [OF this] inspector_result [OF assms]
  show "fileExt' = fileExt" by (auto simp: ToUpper_def)
qed

text \<open>
  On the sample machine \<open>logo.jpg\<close> holds a PNG picture, decoded by the PNG codec, and is
  labelled \<open>JPEG\<close>; it is labelled the same when it holds a JPEG photograph.
\<close>

theorem fileFormat_from_extension_witness:
  "Open sampleEnv ''images/logo.jpg'' = Inr ''png 640x480'' \<and>
   snd (projr (Decode sampleEnv ''png 640x480'')) = ''png'' \<and>
   getImageResolutionAndOrientation sampleEnv ''images/logo.jpg''
     = Inr (640, 480, ''JPEG'', ''landscape'') \<and>
   getImageResolutionAndOrientation
       (sampleEnv\<lparr>Open := \<lambda>path. Inr ''jpeg 1080x1920'', Decode := sampleDecode\<rparr>)
       ''images/logo.jpg''
     = Inr (1080, 1920, ''JPEG'', ''portrait'')"
proof -
  have run: "getImageResolutionAndOrientation sampleEnv ''images/logo.jpg''
               = Inr (640, 480, ''JPEG'', ''landscape'')"
    by code_simp
  have run': "getImageResolutionAndOrientation
       (sampleEnv\<lparr>Open := \<lambda>path. Inr ''jpeg 1080x1920'', Decode := sampleDecode\<rparr>)
       ''images/logo.jpg'' = Inr (1080, 1920, ''JPEG'', ''portrait'')"
    by code_simp
  from fileFormat_from_extension [OF run] run' have "''JPEG'' = ''JPEG''"
    by blast
  moreover have "Open sampleEnv ''images/logo.jpg'' = Inr ''png 640x480''"
    by code_simp
  moreover have "snd (projr (Decode sampleEnv ''png 640x480'')) = ''png''"
    by code_simp
  ultimately show ?thesis using run run' by simp
qed

section \<open>Properties of a worker\<close>

text \<open>
  A worker treats its chunk entry by entry: what it does for one entry does not depend on
  the entries before it, and the \<open>folderURL\<close> argument is never read.
\<close>

lemma processBatch_append:
  "processBatch e (xs @ ys) imageFolder folderURL
     = processBatch e xs imageFolder folderURL @ processBatch e ys imageFolder folderURL"
  by (induction xs) (auto simp: Let_def split: sum.splits)

lemma processBatch_concat:
  "concat (map (\<lambda>chunk. processBatch e chunk imageFolder folderURL) cs)
     = processBatch e (concat cs) imageFolder folderURL"
  by (induction cs) (auto simp: processBatch_append)


lemma sent_append: "sent (xs @ ys) = sent xs @ sent ys"
  by (simp add: sent_def)

lemma sent_processBatch_sources:
  "f \<in> set (sent (processBatch e files imageFolder folderURL)) \<Longrightarrow>
   \<exists>file \<in> set files. processBatch e [file] imageFolder folderURL = [Send f]"
proof (induction files)
  case Nil
  then show ?case by (simp add: sent_def)
next
  case (Cons entry files)
  have "processBatch e (entry # files) imageFolder folderURL
          = processBatch e [entry] imageFolder folderURL @ processBatch e files imageFolder folderURL"
    using processBatch_append [of e "[entry]" files] by simp
  with Cons.prems have "f \<in> set (sent (processBatch e [entry] imageFolder folderURL)) \<or>
                        f \<in> set (sent (processBatch e files imageFolder folderURL))"
    by (simp add: sent_append)
  then show ?case
  proof
    assume "f \<in> set (sent (processBatch e [entry] imageFolder folderURL))"
    then have "processBatch e [entry] imageFolder folderURL = [Send f]"
      by (auto simp: sent_def Let_def split: if_splits sum.splits)
    then show ?thesis by simp
  next
    assume "f \<in> set (sent (processBatch e files imageFolder folderURL))"
    with Cons.IH show ?thesis by auto
  qed
qed


section \<open>Properties of the fan-in\<close>

text \<open>
  Whatever the schedule, the merged sequence holds the actions of the workers, each once.
\<close>

lemma concat_update_Cons:
  "k < length pending \<Longrightarrow> pending ! k = x # rest \<Longrightarrow>
   mset (concat pending) = add_mset x (mset (concat (pending[k := rest])))"
proof (induction pending arbitrary: k)
  case Nil
  then show ?case by simp
next
  case (Cons q qs)
  then show ?case by (cases k) auto
qed

lemma mset_fanIn: "mset (fanIn sched pending) = mset (concat pending)"
proof (induction sched arbitrary: pending)
  case Nil
  show ?case by simp
next
  case (Cons k sched)
  show ?case
  proof (cases "k < length pending")
    case False
    then show ?thesis using Cons.IH by simp
  next
    case True
    show ?thesis
    proof (cases "pending ! k")
      case Nil
      then show ?thesis using True Cons.IH by simp
    next
      case (Cons x rest)
      then show ?thesis
        using True Cons.IH [of "pending[k := rest]"] concat_update_Cons [OF True Cons]
        by simp
    qed
  qed
qed

text \<open>
  The schedules reach exactly the interleavings: every result of \<open>fanIn\<close> is an
  interleaving, and every interleaving is the result of \<open>fanIn\<close> for some schedule.
\<close>

lemma concat_interleaving: "interleaving pending (concat pending)"
proof (induction "length (concat pending)" arbitrary: pending)
  case 0
  then have none: "concat pending = []" by simp
  show ?case unfolding none by (rule interleaving.finished [OF none])
next
  case (Suc n)
  from Suc.hyps(2) have "concat pending \<noteq> []" by (metis length_0_conv nat.distinct(1))
  then have "\<exists>q \<in> set pending. q \<noteq> []" by simp
  then obtain idle q later where split: "pending = idle @ q # later" "q \<noteq> []"
    and empty: "\<forall>d \<in> set idle. \<not> d \<noteq> []"
    using split_list_first_prop [of pending "\<lambda>q. q \<noteq> []"] by blast
  obtain x rest where q: "q = x # rest" using split(2) by (cases q) auto
  have no_output: "concat idle = []" using empty by simp
  let ?k = "length idle"
  have k: "?k < length pending" "pending ! ?k = x # rest"
    and upd: "pending[?k := rest] = idle @ rest # later"
    by (simp_all add: split(1) q)
  have all: "concat pending = x # rest @ concat later"
    by (simp add: split(1) q no_output)
  have fewer: "concat (pending[?k := rest]) = rest @ concat later"
    by (simp add: upd no_output)
  have "n = length (concat (pending[?k := rest]))"
    using Suc.hyps(2) by (simp add: all fewer)
  from Suc.hyps(1) [OF this] have "interleaving (pending[?k := rest]) (rest @ concat later)"
    by (simp only: fewer)
  from interleaving.next_of [OF k this] show ?case
    by (simp only: all)
qed

lemma fanIn_interleaving: "interleaving pending (fanIn sched pending)"
proof (induction sched arbitrary: pending)
  case Nil
  show ?case by (simp add: concat_interleaving)
next
  case (Cons k sched)
  then show ?case
    by (auto split: list.splits intro: interleaving.next_of)
qed

lemma interleaving_fanIn: "interleaving pending out \<Longrightarrow> \<exists>sched. fanIn sched pending = out"
proof (induction rule: interleaving.induct)
  case (finished pending)
  then have "fanIn [] pending = []" by simp
  then show ?case by blast
next
  case (next_of k pending x rest out)
  then obtain sched where "fanIn sched (pending[k := rest]) = out" by blast
  with next_of have "fanIn (k # sched) pending = x # out" by simp
  then show ?case by blast
qed

lemma mset_sent_fanIn:
  "mset (sent (fanIn sched (map (\<lambda>chunk. processBatch e chunk imageFolder folderURL) cs)))
     = mset (sent (processBatch e (concat cs) imageFolder folderURL))"
proof -
  have "mset (fanIn sched (map (\<lambda>chunk. processBatch e chunk imageFolder folderURL) cs))
          = mset (processBatch e (concat cs) imageFolder folderURL)"
    by (simp only: mset_fanIn processBatch_concat)
  then show ?thesis
    unfolding sent_def by (simp only: mset_map mset_filter)
qed

lemma mset_printed_fanIn:
  "mset (printed (fanIn sched (map (\<lambda>chunk. processBatch e chunk imageFolder folderURL) cs)))
     = mset (printed (processBatch e (concat cs) imageFolder folderURL))"
proof -
  have "mset (fanIn sched (map (\<lambda>chunk. processBatch e chunk imageFolder folderURL) cs))
          = mset (processBatch e (concat cs) imageFolder folderURL)"
    by (simp only: mset_fanIn processBatch_concat)
  then show ?thesis
    unfolding printed_def by (simp only: mset_map mset_filter)
qed

section \<open>The fan-out loop computes the chunks\<close>

lemma chunks_Nil [simp]: "chunks n [] = []"
  by (simp add: chunks.simps)

lemma chunks_step: "0 < n \<Longrightarrow> xs \<noteq> [] \<Longrightarrow> chunks n xs = take n xs # chunks n (drop n xs)"
  by (subst chunks.simps) simp

lemma concat_chunks: "0 < n \<Longrightarrow> concat (chunks n xs) = xs"
proof (induction n xs rule: chunks.induct)
  case (1 n xs)
  show ?case
  proof (cases "xs = []")
    case True
    then show ?thesis by simp
  next
    case False
    with 1 show ?thesis by (simp add: chunks_step [OF 1(2) False])
  qed
qed

lemma ceil_div_step:
  fixes m n :: nat
  assumes "0 < n" "0 < m"
  shows "(m + n - 1) div n = Suc ((m - n + n - 1) div n)"
proof -
  have "n \<le> m + n - 1" using assms by arith
  then have "(m + n - 1) div n = Suc ((m + n - 1 - n) div n)"
    using assms(1) by (rule_tac le_div_geq)
  moreover have "(m + n - 1 - n) div n = (m - n + n - 1) div n"
  proof (cases "n \<le> m")
    case True
    then have "m + n - 1 - n = m - n + n - 1" by arith
    then show ?thesis by (rule arg_cong)
  next
    case False
    then have "m + n - 1 - n < n" "m - n + n - 1 < n" using assms by arith+
    then show ?thesis by (simp only: div_less)
  qed
  ultimately show ?thesis by (simp only:)
qed

lemma length_chunks: "0 < n \<Longrightarrow> length (chunks n xs) = (length xs + n - 1) div n"
proof (induction n xs rule: chunks.induct)
  case (1 n xs)
  show ?case
  proof (cases "xs = []")
    case True
    then show ?thesis using 1(2) by simp
  next
    case False
    then have pos: "0 < length xs" by simp
    have "length (chunks n xs) = Suc (length (chunks n (drop n xs)))"
      by (simp add: chunks_step [OF 1(2) False])
    also have "length (chunks n (drop n xs)) = (length (drop n xs) + n - 1) div n"
      using 1 False by blast
    also have "length (drop n xs) = length xs - n" by (rule length_drop)
    finally show ?thesis using ceil_div_step [OF 1(2) pos] by (simp only:)
  qed
qed

lemma ceil_div_nat:
  fixes n b :: nat
  assumes b: "0 < b"
  shows "\<lceil>real n / real b\<rceil> = int ((n + b - 1) div b)"
proof -
  define q where "q = (n + b - 1) div b"
  have "q * b \<le> n + b - 1" unfolding q_def by simp
  moreover have "n + b - 1 < q * b + b"
    unfolding q_def using b by (metis add.commute dividend_less_div_times mult.commute)
  ultimately have nat_bounds: "n \<le> q * b" "q * b < n + b" using b by arith+
  have upper: "real n / real b \<le> real q"
    using nat_bounds(1) b by (simp add: pos_divide_le_eq flip: of_nat_mult)
  have "real (q * b) < real (n + b)" using nat_bounds(2) by (simp only: of_nat_less_iff)
  then have "real q * real b - real b < real n" by simp
  then have "(real q - 1) * real b < real n" by (simp add: algebra_simps)
  then have lower: "real q - 1 < real n / real b"
    using b by (simp add: pos_less_divide_eq)
  have "\<lceil>real n / real b\<rceil> = int q"
    by (rule ceiling_unique) (use lower upper in simp_all)
  then show ?thesis by (simp only: q_def)
qed

lemma nth_chunks:
  "0 < n \<Longrightarrow> k < length (chunks n xs) \<Longrightarrow> chunks n xs ! k = take n (drop (k * n) xs)"
proof (induction n xs arbitrary: k rule: chunks.induct)
  case (1 n xs)
  from 1(3) have ne: "xs \<noteq> []" by auto
  note step = chunks_step [OF 1(2) ne]
  show ?case
  proof (cases k)
    case 0
    then show ?thesis by (simp add: step)
  next
    case (Suc j)
    then have "j < length (chunks n (drop n xs))" using 1(3) by (simp add: step)
    with 1(1) 1(2) ne have "chunks n (drop n xs) ! j = take n (drop (j * n) (drop n xs))"
      by blast
    then show ?thesis using Suc by (simp add: step add.commute)
  qed
qed

lemma chunk_sizes:
  "0 < n \<Longrightarrow> c \<in> set (chunks n xs) \<Longrightarrow> 0 < length c \<and> length c \<le> n"
proof (induction n xs rule: chunks.induct)
  case (1 n xs)
  from 1(3) have ne: "xs \<noteq> []" by auto
  note step = chunks_step [OF 1(2) ne]
  from 1(3) have "c = take n xs \<or> c \<in> set (chunks n (drop n xs))" by (simp add: step)
  then show ?case
  proof
    assume "c = take n xs"
    then show ?thesis using ne 1(2) by simp
  next
    assume "c \<in> set (chunks n (drop n xs))"
    with 1(1) 1(2) ne show ?thesis by blast
  qed
qed

lemma full_chunks:
  assumes n: "0 < n" and k: "Suc k < length (chunks n xs)"
  shows "length (chunks n xs ! k) = n"
proof -
  from k have "Suc (Suc k) \<le> (length xs + n - 1) div n" by (simp add: length_chunks [OF n])
  then have "Suc (Suc k) * n \<le> length xs + n - 1"
    using n by (simp only: less_eq_div_iff_mult_less_eq)
  then have "k * n + n \<le> length xs" using n by simp
  then show ?thesis using nth_chunks [OF n, of k xs] k by simp
qed

text \<open>
  With a batch size of at least 1 the index never overflows (a slice of \<open>DirEntry\<close>
  values has fewer than \<open>2 ^ 62\<close> elements), the loop ends, and it has spawned one worker
  for each chunk of the partition.
\<close>

lemma wrap64_id: "- (2 ^ 63) \<le> x \<Longrightarrow> x < 2 ^ 63 \<Longrightarrow> wrap64 x = x"
  by (simp add: wrap64_def)

lemma spawnLoop_chunks:
  assumes b: "1 \<le> b" "b < 2 ^ 63" and len: "int (length files) \<le> 2 ^ 62"
  shows "0 \<le> i \<Longrightarrow> i = 0 \<or> b \<le> i \<Longrightarrow>
         spawnLoop files b i acc = Some (Returns (acc @ chunks (nat b) (drop (nat i) files)))"
proof (induction "length files - nat i" arbitrary: i acc rule: less_induct)
  case less
  show ?case
  proof (cases "i < int (length files)")
    case False
    then have "drop (nat i) files = []" by simp
    then show ?thesis using False by (subst spawnLoop.simps) simp
  next
    case True
    have sum: "wrap64 (i + b) = i + b"
      using less.prems True b len by (intro wrap64_id) auto
    define end' where "end' = (if i + b > int (length files) then int (length files) else i + b)"
    have bounds: "0 \<le> i" "i \<le> end'"
      using less.prems(1) True b(1) by (auto simp: end'_def)
    have ne: "drop (nat i) files \<noteq> []" using True less.prems(1) by simp
    have chunk: "slice files i end' = take (nat b) (drop (nat i) files)"
    proof (cases "i + b > int (length files)")
      case True
      then have "nat (end' - i) = length (drop (nat i) files)" "length (drop (nat i) files) \<le> nat b"
        using less.prems(1) by (auto simp: end'_def)
      then show ?thesis by (simp add: slice_def)
    next
      case False
      then have "nat (end' - i) = nat b" by (simp add: end'_def)
      then show ?thesis by (simp add: slice_def)
    qed
    have rest: "drop (nat b) (drop (nat i) files) = drop (nat (i + b)) files"
      using less.prems(1) b(1) by (simp add: nat_add_distrib add.commute)
    have "spawnLoop files b (i + b) (acc @ [slice files i end'])
            = Some (Returns ((acc @ [slice files i end']) @ chunks (nat b) (drop (nat (i + b)) files)))"
      using less.prems(1) True b(1) by (intro less.hyps) auto
    then have "spawnLoop files b i acc
            = Some (Returns ((acc @ [slice files i end']) @ chunks (nat b) (drop (nat (i + b)) files)))"
      using True bounds by (subst spawnLoop.simps) (simp add: sum end'_def Let_def)
    also have "(acc @ [slice files i end']) @ chunks (nat b) (drop (nat (i + b)) files)
            = acc @ chunks (nat b) (drop (nat i) files)"
    proof -
      have pos: "0 < nat b" using b(1) by simp
      have "chunks (nat b) (drop (nat i) files)
              = slice files i end' # chunks (nat b) (drop (nat (i + b)) files)"
        by (simp only: chunks_step [OF pos ne] rest chunk)
      then show ?thesis by simp
    qed
    finally show ?thesis .
  qed
qed

lemma spawnLoop_returns_chunks:
  assumes "1 \<le> batchSize" "batchSize < 2 ^ 63" "length files < 2 ^ 62"
  shows "spawnLoop files batchSize 0 [] = Some (Returns (chunks (nat batchSize) files))"
proof -
  have "int (length files) \<le> 2 ^ 62" using assms(3) by simp
  from spawnLoop_chunks [OF assms(1,2) this, of 0 "[]"] show ?thesis by simp
qed

text \<open>With a batch size of 0 and a non-empty slice the loop never ends.\<close>

lemma spawnLoop_zero_diverges_aux:
  assumes "spawnLoop files batchSize i spawned = Some y"
  shows "batchSize = 0 \<Longrightarrow> 0 \<le> i \<Longrightarrow> i < int (length files) \<Longrightarrow> length files < 2 ^ 63 \<Longrightarrow> False"
proof (induction rule: spawnLoop.raw_induct [OF _ assms])
  case (1 loop files batchSize i spawned y)
  have "wrap64 i = i" using 1(4,5,6) by (intro wrap64_id) auto
  with 1(2,3,4,5) have "loop files batchSize i (spawned @ [slice files i i]) = Some y"
    by (simp add: Let_def)
  from 1(1) [OF this 1(3,4,5,6)] show ?case .
qed

lemma spawnLoop_zero_diverges:
  "files \<noteq> [] \<Longrightarrow> length files < 2 ^ 63 \<Longrightarrow> spawnLoop files 0 0 [] = None"
proof (rule ccontr)
  assume ne: "files \<noteq> []" and len: "length files < 2 ^ 63" and "spawnLoop files 0 0 [] \<noteq> None"
  then obtain y where "spawnLoop files 0 0 [] = Some y" by blast
  from spawnLoop_zero_diverges_aux [OF this] ne len show False by simp
qed



section \<open>Properties of the batch scheduler\<close>

lemma BatchProcess_returns:
  assumes "1 \<le> batchSize" "batchSize < 2 ^ 63" "length files < 2 ^ 62"
  shows "BatchProcess e sched files imageFolder folderURL batchSize
           = Some (Returns
               ((sent (fanIn sched (map (\<lambda>chunk. processBatch e chunk imageFolder folderURL)
                                        (chunks (nat batchSize) files))),
                 None),
                printed (fanIn sched (map (\<lambda>chunk. processBatch e chunk imageFolder folderURL)
                                          (chunks (nat batchSize) files)))))"
  unfolding BatchProcess_def by (simp add: spawnLoop_returns_chunks [OF assms] Let_def)

lemma BatchProcess_flyers:
  assumes "1 \<le> batchSize" "batchSize < 2 ^ 63" "length files < 2 ^ 62"
  shows "\<exists>flyers logged.
           BatchProcess e sched files imageFolder folderURL batchSize
             = Some (Returns ((flyers, None), logged)) \<and>
           mset flyers = mset (sent (processBatch e files imageFolder folderURL))"
proof -
  have pos: "0 < nat batchSize" using assms(1) by simp
  have "mset (sent (fanIn sched (map (\<lambda>chunk. processBatch e chunk imageFolder folderURL)
                                        (chunks (nat batchSize) files))))
          = mset (sent (processBatch e files imageFolder folderURL))"
    by (simp only: mset_sent_fanIn concat_chunks [OF pos])
  with BatchProcess_returns [OF assms] show ?thesis by blast
qed

lemma BatchProcess_flyers_logged:
  assumes "1 \<le> batchSize" "batchSize < 2 ^ 63" "length files < 2 ^ 62"
  shows "\<exists>flyers logged.
           BatchProcess e sched files imageFolder folderURL batchSize
             = Some (Returns ((flyers, None), logged)) \<and>
           mset flyers = mset (sent (processBatch e files imageFolder folderURL)) \<and>
           mset logged = mset (printed (processBatch e files imageFolder folderURL))"
proof -
  have pos: "0 < nat batchSize" using assms(1) by simp
  let ?trace = "fanIn sched (map (\<lambda>chunk. processBatch e chunk imageFolder folderURL)
                                        (chunks (nat batchSize) files))"
  have "mset (sent ?trace) = mset (sent (processBatch e files imageFolder folderURL))"
    by (simp only: mset_sent_fanIn concat_chunks [OF pos])
  moreover have "mset (printed ?trace) = mset (printed (processBatch e files imageFolder folderURL))"
    by (simp only: mset_printed_fanIn concat_chunks [OF pos])
  ultimately show ?thesis using BatchProcess_returns [OF assms] by blast
qed

lemma BatchProcess_error_nil:
  "BatchProcess e sched files imageFolder folderURL batchSize = Some (Returns ((flyers, err), logged))
   \<Longrightarrow> err = None"
  by (auto simp: BatchProcess_def Let_def split: option.splits outcome.splits)


text \<open>
  Claim C5. A worker handles the entries of its chunk in sequence, each on its own: the
  actions for a chunk are the actions for the entries before an entry, then those for the
  entry, then those for the entries after it, whatever happened at the entry. A directory
  gives no action at all. A file on which the inspector fails (opening or decoding) gives
  one printed line and no value on the channel. A file on which it succeeds gives one
  complete Flyer. Every Flyer a worker sends comes from a file of its chunk that is not a
  directory and that the inspector decoded. Nor does a failure stop the batch: for a batch
  size of at least 1, \<open>BatchProcess\<close> returns with a \<open>nil\<close> error, every Flyer and
  every log line that the entries give rise to, each once.
\<close>

theorem processBatch_entry_by_entry:
  "processBatch e (earlier @ file # later) imageFolder folderURL
     = processBatch e earlier imageFolder folderURL
       @ processBatch e [file] imageFolder folderURL
       @ processBatch e later imageFolder folderURL \<and>
   (IsDir file \<longrightarrow> processBatch e [file] imageFolder folderURL = []) \<and>
   (\<forall>err. \<not> IsDir file \<and>
        getImageResolutionAndOrientation e (Join e imageFolder (Name file)) = Inl err \<longrightarrow>
      processBatch e [file] imageFolder folderURL
        = [Print (''Error processing image '' @ Name file @ '': '' @ message err @ newline)]) \<and>
   (\<forall>width height fileExt orientation. \<not> IsDir file \<and>
        getImageResolutionAndOrientation e (Join e imageFolder (Name file))
          = Inr (width, height, fileExt, orientation) \<longrightarrow>
      (\<exists>f. processBatch e [file] imageFolder folderURL = [Send f] \<and>
           ID f = TrimSuffix (Name file) (Ext (GOOS e) (Name file)) \<and>
           Resolution (Design f) = \<lparr>Width = width, Height = height, Unit = ''px''\<rparr> \<and>
           FileFormat (Design f) = fileExt \<and> Orientation (Design f) = orientation \<and>
           Flyer.URL f = ToSlash (GOOS e) (Join e imageFolder (Name file)))) \<and>
   (\<forall>f \<in> set (sent (processBatch e files imageFolder folderURL)).
      \<exists>file \<in> set files. \<not> IsDir file \<and>
        (\<exists>width height fileExt orientation.
           getImageResolutionAndOrientation e (Join e imageFolder (Name file))
             = Inr (width, height, fileExt, orientation)) \<and>
        processBatch e [file] imageFolder folderURL = [Send f]) \<and>
   (1 \<le> batchSize \<and> batchSize < 2 ^ 63 \<and> length files < 2 ^ 62 \<longrightarrow>
      (\<exists>flyers logged.
         BatchProcess e sched files imageFolder folderURL batchSize
           = Some (Returns ((flyers, None), logged)) \<and>
         mset flyers = mset (sent (processBatch e files imageFolder folderURL)) \<and>
         mset logged = mset (printed (processBatch e files imageFolder folderURL))))"
proof (intro conjI allI impI ballI)
  show "processBatch e (earlier @ file # later) imageFolder folderURL
     = processBatch e earlier imageFolder folderURL
       @ processBatch e [file] imageFolder folderURL
       @ processBatch e later imageFolder folderURL"
    using processBatch_append [of e earlier "[file] @ later"] processBatch_append [of e "[file]" later]
    by simp
next
  assume "IsDir file"
  then show "processBatch e [file] imageFolder folderURL = []" by simp
next
  fix err
  assume "\<not> IsDir file \<and>
        getImageResolutionAndOrientation e (Join e imageFolder (Name file)) = Inl err"
  then show "processBatch e [file] imageFolder folderURL
        = [Print (''Error processing image '' @ Name file @ '': '' @ message err @ newline)]"
    by simp
next
  fix width height fileExt orientation
  assume "\<not> IsDir file \<and>
        getImageResolutionAndOrientation e (Join e imageFolder (Name file))
          = Inr (width, height, fileExt, orientation)"
  then show "\<exists>f. processBatch e [file] imageFolder folderURL = [Send f] \<and>
           ID f = TrimSuffix (Name file) (Ext (GOOS e) (Name file)) \<and>
           Resolution (Design f) = \<lparr>Width = width, Height = height, Unit = ''px''\<rparr> \<and>
           FileFormat (Design f) = fileExt \<and> Orientation (Design f) = orientation \<and>
           Flyer.URL f = ToSlash (GOOS e) (Join e imageFolder (Name file))"
    by simp
next
  fix f
  assume "f \<in> set (sent (processBatch e files imageFolder folderURL))"
  from sent_processBatch_sources [OF this]
  obtain entry where entry: "entry \<in> set files" "processBatch e [entry] imageFolder folderURL = [Send f]"
    by blast
  from entry(2) have "\<not> IsDir entry \<and>
        (\<exists>width height fileExt orientation.
           getImageResolutionAndOrientation e (Join e imageFolder (Name entry))
             = Inr (width, height, fileExt, orientation))"
    by (auto simp: Let_def split: if_splits sum.splits)
  with entry show "\<exists>file \<in> set files. \<not> IsDir file \<and>
        (\<exists>width height fileExt orientation.
           getImageResolutionAndOrientation e (Join e imageFolder (Name file))
             = Inr (width, height, fileExt, orientation)) \<and>
        processBatch e [file] imageFolder folderURL = [Send f]"
    by blast
next
  assume "1 \<le> batchSize \<and> batchSize < 2 ^ 63 \<and> length files < 2 ^ 62"
  then show "\<exists>flyers logged.
         BatchProcess e sched files imageFolder folderURL batchSize
           = Some (Returns ((flyers, None), logged)) \<and>
         mset flyers = mset (sent (processBatch e files imageFolder folderURL)) \<and>
         mset logged = mset (printed (processBatch e files imageFolder folderURL))"
    using BatchProcess_flyers_logged [of batchSize files e sched imageFolder folderURL] by blast
qed

text \<open>
  On the sample machine the worker logs \<open>notes.txt\<close>, passes over the directory
  \<open>old\<close>, and goes on to the two pictures after them.
\<close>

theorem processBatch_entry_by_entry_witness:
  "processBatch sampleEnv [\<lparr>Name = ''notes.txt'', IsDir = False\<rparr>] ''images/'' ''path/to/Flyers''
     = [Print (''Error processing image notes.txt: image: unknown format'' @ newline)] \<and>
   processBatch sampleEnv [\<lparr>Name = ''old'', IsDir = True\<rparr>] ''images/'' ''path/to/Flyers'' = [] \<and>
   processBatch sampleEnv sampleFiles ''images/'' ''path/to/Flyers''
     = processBatch sampleEnv (take 2 sampleFiles) ''images/'' ''path/to/Flyers''
       @ [Print (''Error processing image notes.txt: image: unknown format'' @ newline)]
       @ processBatch sampleEnv (drop 3 sampleFiles) ''images/'' ''path/to/Flyers'' \<and>
   map ID (sent (processBatch sampleEnv sampleFiles ''images/'' ''path/to/Flyers''))
     = [''a'', ''b'', ''logo'', ''icon''] \<and>
   (\<exists>flyers logged.
      BatchProcess sampleEnv [2, 0] sampleFiles ''images/'' ''path/to/Flyers'' 2
        = Some (Returns ((flyers, None), logged)) \<and>
      length flyers = 4 \<and>
      logged = [''Error processing image notes.txt: image: unknown format'' @ newline])"
proof -
  let ?notes = "\<lparr>Name = ''notes.txt'', IsDir = False\<rparr>"
  let ?old = "\<lparr>Name = ''old'', IsDir = True\<rparr>"
  note at_notes = processBatch_entry_by_entry
      [of sampleEnv "take 2 sampleFiles" ?notes "drop 3 sampleFiles" "''images/''" "''path/to/Flyers''"]
  note at_old = processBatch_entry_by_entry
      [of sampleEnv "[]" ?old "[]" "''images/''" "''path/to/Flyers''"]
  have fails: "\<not> IsDir ?notes \<and>
      getImageResolutionAndOrientation sampleEnv (Join sampleEnv ''images/'' (Name ?notes))
        = Inl (GoError ''image: unknown format'')"
    by code_simp
  from at_notes fails
  have logged: "processBatch sampleEnv [?notes] ''images/'' ''path/to/Flyers''
     = [Print (''Error processing image '' @ Name ?notes @ '': ''
                 @ message (GoError ''image: unknown format'') @ newline)]"
    by blast
  have skipped: "processBatch sampleEnv [?old] ''images/'' ''path/to/Flyers'' = []"
    using at_old by simp
  have split: "sampleFiles = take 2 sampleFiles @ ?notes # drop 3 sampleFiles"
    by (simp add: sampleFiles_def)
  from at_notes have "processBatch sampleEnv (take 2 sampleFiles @ ?notes # drop 3 sampleFiles)
                     ''images/'' ''path/to/Flyers''
     = processBatch sampleEnv (take 2 sampleFiles) ''images/'' ''path/to/Flyers''
       @ processBatch sampleEnv [?notes] ''images/'' ''path/to/Flyers''
       @ processBatch sampleEnv (drop 3 sampleFiles) ''images/'' ''path/to/Flyers''"
    by (rule conjunct1)
  then have continues: "processBatch sampleEnv sampleFiles ''images/'' ''path/to/Flyers''
     = processBatch sampleEnv (take 2 sampleFiles) ''images/'' ''path/to/Flyers''
       @ [Print (''Error processing image notes.txt: image: unknown format'' @ newline)]
       @ processBatch sampleEnv (drop 3 sampleFiles) ''images/'' ''path/to/Flyers''"
    using logged split by simp
  have ids: "map ID (sent (processBatch sampleEnv sampleFiles ''images/'' ''path/to/Flyers''))
     = [''a'', ''b'', ''logo'', ''icon'']"
    by code_simp
  have small: "(1::int) \<le> 2 \<and> (2::int) < 2 ^ 63 \<and> length sampleFiles < 2 ^ 62"
    by (simp add: sampleFiles_def)
  from processBatch_entry_by_entry
      [of sampleEnv "[]" ?old "[]" "''images/''" "''path/to/Flyers''" sampleFiles 2 "[2, 0]"] small
  obtain flyers logged' where
    ran: "BatchProcess sampleEnv [2, 0] sampleFiles ''images/'' ''path/to/Flyers'' 2
            = Some (Returns ((flyers, None), logged'))"
    and all_sent: "mset flyers = mset (sent (processBatch sampleEnv sampleFiles ''images/'' ''path/to/Flyers''))"
    and all_logged: "mset logged' = mset (printed (processBatch sampleEnv sampleFiles ''images/'' ''path/to/Flyers''))"
    by blast
  have "length (map ID (sent (processBatch sampleEnv sampleFiles ''images/'' ''path/to/Flyers'')))
          = length [''a'', ''b'', ''logo'', ''icon'']"
    by (simp only: ids)
  then have "length (sent (processBatch sampleEnv sampleFiles ''images/'' ''path/to/Flyers'')) = 4"
    by simp
  with mset_eq_length [OF all_sent] have four: "length flyers = 4" by simp
  have "printed (processBatch sampleEnv sampleFiles ''images/'' ''path/to/Flyers'')
          = [''Error processing image notes.txt: image: unknown format'' @ newline]"
    by code_simp
  with all_logged have one: "logged' = [''Error processing image notes.txt: image: unknown format'' @ newline]"
    by simp
  have batch: "\<exists>flyers logged.
      BatchProcess sampleEnv [2, 0] sampleFiles ''images/'' ''path/to/Flyers'' 2
        = Some (Returns ((flyers, None), logged)) \<and>
      length flyers = 4 \<and>
      logged = [''Error processing image notes.txt: image: unknown format'' @ newline]"
    by (intro exI conjI) (fact ran four one)+
  from logged have logged_line:
    "processBatch sampleEnv [?notes] ''images/'' ''path/to/Flyers''
       = [Print (''Error processing image notes.txt: image: unknown format'' @ newline)]"
    by simp
  show ?thesis
    by (intro conjI) (fact logged_line skipped continues ids batch)+
qed

text \<open>
  Claim C4. For a batch size of at least 1, \<open>BatchProcess\<close> cuts the entries into
  contiguous chunks: chunk \<open>k\<close> is the \<open>batchSize\<close> entries from position
  \<open>k * batchSize\<close> on (fewer at the end of the list), so the chunks put end to end are
  the list itself and every entry is in exactly one chunk; every chunk but the last has
  exactly \<open>batchSize\<close> entries and none is empty; and there are
  \<open>\<lceil>len(entries) / batchSize\<rceil>\<close> chunks, each with one worker running \<open>processBatch\<close> on
  it.
\<close>

theorem BatchProcess_partition:
  assumes "1 \<le> batchSize" "batchSize < 2 ^ 63" "length files < 2 ^ 62"
  shows "\<exists>cs. spawnLoop files batchSize 0 [] = Some (Returns cs) \<and>
           concat cs = files \<and>
           int (length cs) = \<lceil>real (length files) / real_of_int batchSize\<rceil> \<and>
           (\<forall>k < length cs. cs ! k = take (nat batchSize) (drop (k * nat batchSize) files)) \<and>
           (\<forall>k. Suc k < length cs \<longrightarrow> length (cs ! k) = nat batchSize) \<and>
           (\<forall>c \<in> set cs. 0 < length c \<and> length c \<le> nat batchSize) \<and>
           (let workers = map (\<lambda>chunk. processBatch e chunk imageFolder folderURL) cs
            in length workers = length cs \<and>
               BatchProcess e sched files imageFolder folderURL batchSize
                 = Some (Returns ((sent (fanIn sched workers), None), printed (fanIn sched workers))))"
proof -
  have pos: "0 < nat batchSize" using assms(1) by simp
  let ?cs = "chunks (nat batchSize) files"
  have "spawnLoop files batchSize 0 [] = Some (Returns ?cs)"
    by (rule spawnLoop_returns_chunks [OF assms])
  moreover have "concat ?cs = files" by (rule concat_chunks [OF pos])
  moreover have "int (length ?cs) = \<lceil>real (length files) / real_of_int batchSize\<rceil>"
  proof -
    have "real_of_int batchSize = real (nat batchSize)" using assms(1) by simp
    then show ?thesis by (simp only: ceil_div_nat [OF pos] length_chunks [OF pos])
  qed
  moreover have "\<forall>k < length ?cs. ?cs ! k = take (nat batchSize) (drop (k * nat batchSize) files)"
    using nth_chunks [OF pos] by blast
  moreover have "\<forall>k. Suc k < length ?cs \<longrightarrow> length (?cs ! k) = nat batchSize"
    using full_chunks [OF pos] by blast
  moreover have "\<forall>c \<in> set ?cs. 0 < length c \<and> length c \<le> nat batchSize"
    using chunk_sizes [OF pos] by blast
  moreover have "let workers = map (\<lambda>chunk. processBatch e chunk imageFolder folderURL) ?cs
            in length workers = length ?cs \<and>
               BatchProcess e sched files imageFolder folderURL batchSize
                 = Some (Returns ((sent (fanIn sched workers), None), printed (fanIn sched workers)))"
    unfolding Let_def using BatchProcess_returns [OF assms] by simp
  ultimately show ?thesis by blast
qed

text \<open>The six entries of the sample directory in batches of four: two workers.\<close>

theorem BatchProcess_partition_witness:
  "\<exists>cs. spawnLoop sampleFiles 4 0 [] = Some (Returns cs) \<and>
        cs = [take 4 sampleFiles, drop 4 sampleFiles] \<and>
        concat cs = sampleFiles \<and>
        \<lceil>real (length sampleFiles) / real_of_int 4\<rceil> = 2 \<and>
        length (cs ! 0) = 4 \<and> length (cs ! 1) = 2"
proof -
  have small: "length sampleFiles < 2 ^ 62" by (simp add: sampleFiles_def)
  from BatchProcess_partition [of 4, OF _ _ small, of sampleEnv "''images/''" "''path/to/Flyers''" "[]"]
  obtain cs where
    cs: "spawnLoop sampleFiles 4 0 [] = Some (Returns cs)"
    and whole: "concat cs = sampleFiles"
    and number: "int (length cs) = \<lceil>real (length sampleFiles) / real_of_int 4\<rceil>"
    by auto
  have "spawnLoop sampleFiles 4 0 [] = Some (Returns [take 4 sampleFiles, drop 4 sampleFiles])"
    by code_simp
  with cs have shape: "cs = [take 4 sampleFiles, drop 4 sampleFiles]" by simp
  then have "length (cs ! 0) = 4" "length (cs ! 1) = 2" "length cs = 2"
    by (simp_all add: sampleFiles_def)
  with cs whole number shape show ?thesis by simp
qed

text \<open>
  Claim C3. For a fixed list of entries, any two batch sizes of at least 1 and any two
  schedules, both calls of \<open>BatchProcess\<close> return, with results of the same length that
  hold the same Flyers, each as often in one as in the other; the order may differ.
\<close>

theorem BatchProcess_batchSize_invariant:
  assumes "1 \<le> b1" "b1 < 2 ^ 63" "1 \<le> b2" "b2 < 2 ^ 63" "length files < 2 ^ 62"
  shows "\<exists>flyers1 logged1 flyers2 logged2.
           BatchProcess e sched1 files imageFolder folderURL b1
             = Some (Returns ((flyers1, None), logged1)) \<and>
           BatchProcess e sched2 files imageFolder folderURL b2
             = Some (Returns ((flyers2, None), logged2)) \<and>
           length flyers1 = length flyers2 \<and>
           mset flyers1 = mset flyers2"
proof -
  from BatchProcess_flyers [OF assms(1,2,5)] obtain flyers1 logged1 where
    one: "BatchProcess e sched1 files imageFolder folderURL b1 = Some (Returns ((flyers1, None), logged1))"
         "mset flyers1 = mset (sent (processBatch e files imageFolder folderURL))"
    by blast
  from BatchProcess_flyers [OF assms(3,4,5)] obtain flyers2 logged2 where
    two: "BatchProcess e sched2 files imageFolder folderURL b2 = Some (Returns ((flyers2, None), logged2))"
         "mset flyers2 = mset (sent (processBatch e files imageFolder folderURL))"
    by blast
  have same: "mset flyers1 = mset flyers2" using one(2) two(2) by simp
  then have "length flyers1 = length flyers2" by (rule mset_eq_length)
  with one(1) two(1) same show ?thesis by blast
qed

text \<open>
  The sample directory one entry at a time with the last worker first, and all at once:
  the same four Flyers in two different orders.
\<close>

theorem BatchProcess_batchSize_invariant_witness:
  "\<exists>flyers1 logged1 flyers2 logged2.
     BatchProcess sampleEnv [5, 4, 3, 2, 1, 0] sampleFiles ''images/'' ''path/to/Flyers'' 1
       = Some (Returns ((flyers1, None), logged1)) \<and>
     BatchProcess sampleEnv [] sampleFiles ''images/'' ''path/to/Flyers'' 6
       = Some (Returns ((flyers2, None), logged2)) \<and>
     length flyers1 = length flyers2 \<and> mset flyers1 = mset flyers2 \<and>
     map ID flyers1 = [''icon'', ''logo'', ''b'', ''a''] \<and>
     map ID flyers2 = [''a'', ''b'', ''logo'', ''icon'']"
proof -
  have small: "length sampleFiles < 2 ^ 62" by (simp add: sampleFiles_def)
  from BatchProcess_batchSize_invariant [of 1 6, OF _ _ _ _ small,
      of sampleEnv "[5, 4, 3, 2, 1, 0]" "''images/''" "''path/to/Flyers''" "[]"]
  obtain flyers1 logged1 flyers2 logged2 where
    one: "BatchProcess sampleEnv [5, 4, 3, 2, 1, 0] sampleFiles ''images/'' ''path/to/Flyers'' 1
            = Some (Returns ((flyers1, None), logged1))"
    and two: "BatchProcess sampleEnv [] sampleFiles ''images/'' ''path/to/Flyers'' 6
            = Some (Returns ((flyers2, None), logged2))"
    and same: "length flyers1 = length flyers2" "mset flyers1 = mset flyers2"
    by auto
  have "case BatchProcess sampleEnv [5, 4, 3, 2, 1, 0] sampleFiles ''images/'' ''path/to/Flyers'' 1 of
          Some (Returns ((flyers, err), logged)) \<Rightarrow> map ID flyers = [''icon'', ''logo'', ''b'', ''a'']
        | _ \<Rightarrow> False"
    by code_simp
  with one have ids1: "map ID flyers1 = [''icon'', ''logo'', ''b'', ''a'']" by simp
  have "case BatchProcess sampleEnv [] sampleFiles ''images/'' ''path/to/Flyers'' 6 of
          Some (Returns ((flyers, err), logged)) \<Rightarrow> map ID flyers = [''a'', ''b'', ''logo'', ''icon'']
        | _ \<Rightarrow> False"
    by code_simp
  with two have ids2: "map ID flyers2 = [''a'', ''b'', ''logo'', ''icon'']" by simp
  show ?thesis
    by (intro exI conjI) (fact one two same ids1 ids2)+
qed

section \<open>Properties of the entry point\<close>

lemma ReadAndForward_listing_fails:
  "ReadDir e imageFolder = (files, Some err) \<Longrightarrow>
   ReadAndForward e sched imageFolder folderURL batchSize
     = Some (Returns \<lparr>returned = Some (GoError (''error reading directory: '' @ message err)),
                    effects = [], documents = None\<rparr>)"
  by (simp add: ReadAndForward_def)

lemma ReadAndForward_after_listing:
  assumes "ReadDir e imageFolder = (files, None)"
    and "BatchProcess e sched files imageFolder folderURL batchSize
           = Some (Returns ((flyers, None), logged))"
  shows "\<exists>r. ReadAndForward e sched imageFolder folderURL batchSize = Some (Returns r) \<and>
             documents r = Some (\<lparr>Version = ''1.0'', LastUpdated = Now e,
                                    TotalFlyers = int (length flyers), URL = folderURL,
                                    Schema = \<lparr>Format = ''JSON'', Encoding = ''UTF-8'',
                                              Filetype = ''text''\<rparr>\<rparr>,
                                  \<lparr>Flyers = flyers\<rparr>)"
  using assms
  by (simp add: ReadAndForward_def Let_def split: sum.splits option.splits)

lemma ReadAndForward_documents:
  assumes "ReadAndForward e sched imageFolder folderURL batchSize = Some (Returns r)"
    and "documents r = Some (metadata, flyersData)"
  shows "\<exists>files flyers logged.
           ReadDir e imageFolder = (files, None) \<and>
           BatchProcess e sched files imageFolder folderURL batchSize
             = Some (Returns ((flyers, None), logged)) \<and>
           metadata = \<lparr>Version = ''1.0'', LastUpdated = Now e,
                        TotalFlyers = int (length flyers), URL = folderURL,
                        Schema = \<lparr>Format = ''JSON'', Encoding = ''UTF-8'',
                                  Filetype = ''text''\<rparr>\<rparr> \<and>
           flyersData = \<lparr>Flyers = flyers\<rparr>"
proof (cases "ReadDir e imageFolder")
  case (Pair files listing)
  show ?thesis
  proof (cases listing)
    case (Some err)
    with Pair assms show ?thesis by (auto simp: ReadAndForward_listing_fails)
  next
    case None
    with Pair assms(1) obtain flyers err logged where
      ran: "BatchProcess e sched files imageFolder folderURL batchSize
              = Some (Returns ((flyers, err), logged))"
      by (auto simp: ReadAndForward_def split: option.splits outcome.splits)
    from BatchProcess_error_nil [OF ran] ran have ran':
      "BatchProcess e sched files imageFolder folderURL batchSize
              = Some (Returns ((flyers, None), logged))" by simp
    have listed: "ReadDir e imageFolder = (files, None)" using Pair None by simp
    from ReadAndForward_after_listing [OF listed ran'] assms
    have "metadata = \<lparr>Version = ''1.0'', LastUpdated = Now e,
                        TotalFlyers = int (length flyers), URL = folderURL,
                        Schema = \<lparr>Format = ''JSON'', Encoding = ''UTF-8'',
                                  Filetype = ''text''\<rparr>\<rparr> \<and>
           flyersData = \<lparr>Flyers = flyers\<rparr>"
      by auto
    with listed ran' show ?thesis by blast
  qed
qed

lemma ReadAndForward_reaches_documents:
  assumes "ReadDir e imageFolder = (files, None)"
    and "1 \<le> batchSize" "batchSize < 2 ^ 63" "length files < 2 ^ 62"
  shows "\<exists>r metadata flyersData.
           ReadAndForward e sched imageFolder folderURL batchSize = Some (Returns r) \<and>
           documents r = Some (metadata, flyersData)"
proof -
  from BatchProcess_flyers [OF assms(2,3,4)] obtain flyers logged where
    "BatchProcess e sched files imageFolder folderURL batchSize = Some (Returns ((flyers, None), logged))"
    by blast
  from ReadAndForward_after_listing [OF assms(1) this] show ?thesis by blast
qed

lemma ReadAndForward_failure_points:
  assumes "ReadDir e imageFolder = (files, None)"
    and "ReadAndForward e sched imageFolder folderURL batchSize = Some (Returns r)"
    and "returned r = Some err"
  shows "\<exists>metadata flyersData.
           documents r = Some (metadata, flyersData) \<and>
           ((\<exists>x. MarshalIndentFlyersData e flyersData '''' ''  '' = Inl x \<and>
                 err = GoError (''error encoding JSON: '' @ message x)) \<or>
            (\<exists>x. MarshalIndentMetadata e metadata '''' '' '' = Inl x \<and>
                 err = GoError (''error encoding JSON: '' @ message x)) \<or>
            (\<exists>x jsonData. MarshalIndentFlyersData e flyersData '''' ''  '' = Inr jsonData \<and>
                 WriteFile e ''flyers.json'' jsonData 420 = Some x \<and>
                 err = GoError (''error writing flyer JSON file '' @ message x)) \<or>
            (\<exists>x metaJsonData. MarshalIndentMetadata e metadata '''' '' '' = Inr metaJsonData \<and>
                 WriteFile e ''imagesMetadata.json'' metaJsonData 420 = Some x \<and>
                 err = GoError (''error writing metadata JSON file '' @ message x)))"
proof -
  from assms(1,2) obtain flyers err' logged where
    ran: "BatchProcess e sched files imageFolder folderURL batchSize
            = Some (Returns ((flyers, err'), logged))"
    by (auto simp: ReadAndForward_def split: option.splits outcome.splits)
  from BatchProcess_error_nil [OF ran] ran have ran':
    "BatchProcess e sched files imageFolder folderURL batchSize
            = Some (Returns ((flyers, None), logged))" by simp
  show ?thesis
    using assms(2,3)
    by (auto simp: ReadAndForward_def assms(1) ran' Let_def split: sum.splits option.splits)
qed

text \<open>
  Claim C1. In every call of \<open>ReadAndForward\<close> that gets as far as building the
  metadata, \<open>TotalFlyers\<close> is the length of the \<open>Flyers\<close> list of the catalog built by
  the same call, which is the slice \<open>BatchProcess\<close> returned once every worker was done;
  for a batch size of at least 1 the list holds exactly the Flyers the workers sent. (By
  \<open>ReadAndForward_reaches_documents\<close> every call whose listing succeeds gets that far
  when the batch size is at least 1.)
\<close>

theorem totalFlyers_is_catalog_length:
  assumes "ReadAndForward e sched imageFolder folderURL batchSize = Some (Returns r)"
    and "documents r = Some (metadata, flyersData)"
  shows "TotalFlyers metadata = int (length (Flyers flyersData)) \<and>
         (\<exists>files logged.
            ReadDir e imageFolder = (files, None) \<and>
            BatchProcess e sched files imageFolder folderURL batchSize
              = Some (Returns ((Flyers flyersData, None), logged)) \<and>
            (1 \<le> batchSize \<and> batchSize < 2 ^ 63 \<and> length files < 2 ^ 62 \<longrightarrow>
               mset (Flyers flyersData) = mset (sent (processBatch e files imageFolder folderURL))))"
proof -
  from ReadAndForward_documents [OF assms] obtain files flyers logged where
    listed: "ReadDir e imageFolder = (files, None)"
    and ran: "BatchProcess e sched files imageFolder folderURL batchSize
                = Some (Returns ((flyers, None), logged))"
    and metadata: "metadata = \<lparr>Version = ''1.0'', LastUpdated = Now e,
                        TotalFlyers = int (length flyers), URL = folderURL,
                        Schema = \<lparr>Format = ''JSON'', Encoding = ''UTF-8'',
                                  Filetype = ''text''\<rparr>\<rparr>"
    and flyersData: "flyersData = \<lparr>Flyers = flyers\<rparr>"
    by blast
  have count: "TotalFlyers metadata = int (length (Flyers flyersData))"
    by (simp add: metadata flyersData)
  have "1 \<le> batchSize \<and> batchSize < 2 ^ 63 \<and> length files < 2 ^ 62 \<longrightarrow>
          mset (Flyers flyersData) = mset (sent (processBatch e files imageFolder folderURL))"
  proof
    assume "1 \<le> batchSize \<and> batchSize < 2 ^ 63 \<and> length files < 2 ^ 62"
    then have "\<exists>flyers' logged'.
           BatchProcess e sched files imageFolder folderURL batchSize
             = Some (Returns ((flyers', None), logged')) \<and>
           mset flyers' = mset (sent (processBatch e files imageFolder folderURL))"
      by (intro BatchProcess_flyers) simp_all
    with ran show "mset (Flyers flyersData) = mset (sent (processBatch e files imageFolder folderURL))"
      by (auto simp: flyersData)
  qed
  with count listed ran show ?thesis by (auto simp: flyersData)
qed

text \<open>On the sample machine, in batches of two: four Flyers and a count of four.\<close>

theorem totalFlyers_is_catalog_length_witness:
  "\<exists>r metadata flyersData.
     ReadAndForward sampleEnv [1, 0, 2, 2] ''images/'' ''path/to/Flyers'' 2 = Some (Returns r) \<and>
     documents r = Some (metadata, flyersData) \<and>
     TotalFlyers metadata = 4 \<and> length (Flyers flyersData) = 4"
proof -
  have listed: "ReadDir sampleEnv ''images/'' = (sampleFiles, None)"
    by (simp add: sampleEnv_def)
  have small: "length sampleFiles < 2 ^ 62" by (simp add: sampleFiles_def)
  from ReadAndForward_reaches_documents [OF listed _ _ small, of 2 "[1, 0, 2, 2]" "''path/to/Flyers''"]
  obtain r metadata flyersData where
    run: "ReadAndForward sampleEnv [1, 0, 2, 2] ''images/'' ''path/to/Flyers'' 2 = Some (Returns r)"
    and docs: "documents r = Some (metadata, flyersData)"
    by auto
  from totalFlyers_is_catalog_length [OF run docs] listed small
  have count: "TotalFlyers metadata = int (length (Flyers flyersData))"
    and same: "mset (Flyers flyersData)
                 = mset (sent (processBatch sampleEnv sampleFiles ''images/'' ''path/to/Flyers''))"
    by auto
  have "length (sent (processBatch sampleEnv sampleFiles ''images/'' ''path/to/Flyers'')) = 4"
    by code_simp
  with mset_eq_length [OF same] have "length (Flyers flyersData) = 4" by simp
  with count run docs show ?thesis by auto
qed

text \<open>
  Claim C7. When the directory cannot be listed, \<open>ReadAndForward\<close> returns the error
  \<open>error reading directory: ...\<close> at once: nothing is printed, neither \<open>flyers.json\<close> nor
  \<open>imagesMetadata.json\<close> is written, and no catalog or metadata is built.
\<close>

theorem listing_failure_is_fatal:
  assumes "ReadDir e imageFolder = (files, Some err)"
  shows "\<exists>r. ReadAndForward e sched imageFolder folderURL batchSize = Some (Returns r) \<and>
             returned r = Some (GoError (''error reading directory: '' @ message err)) \<and>
             documents r = None \<and>
             effects r = [] \<and>
             (\<forall>data. WriteFileCall ''flyers.json'' data \<notin> set (effects r)) \<and>
             (\<forall>data. WriteFileCall ''imagesMetadata.json'' data \<notin> set (effects r))"
  using ReadAndForward_listing_fails [OF assms] by simp

text \<open>The sample machine has no directory \<open>nonexistent\<close>.\<close>

theorem listing_failure_is_fatal_witness:
  "\<exists>r. ReadAndForward sampleEnv [] ''nonexistent'' ''http://example.com'' 2 = Some (Returns r) \<and>
        returned r = Some (GoError
          ''error reading directory: open nonexistent: no such file or directory'') \<and>
        documents r = None \<and> effects r = []"
proof -
  have "ReadDir sampleEnv ''nonexistent''
          = ([], Some (GoError ''open nonexistent: no such file or directory''))"
    by (simp add: sampleEnv_def)
  from listing_failure_is_fatal [OF this, of "[]" "''http://example.com''" 2]
  obtain r where
    "ReadAndForward sampleEnv [] ''nonexistent'' ''http://example.com'' 2 = Some (Returns r)"
    "returned r = Some (GoError (''error reading directory: ''
                   @ message (GoError ''open nonexistent: no such file or directory'')))"
    "documents r = None" "effects r = []"
    by blast
  then show ?thesis by simp
qed




text \<open>
  Claim C10 as it is worded fails: \<open>BatchProcess\<close> does not return on every input. On
  the sample directory a batch size of 0 keeps the loop of lines 203 to 211 spawning
  workers for ever, and a batch size of \<open>-1\<close> makes the slice expression \<open>files[0:-1]\<close>
  panic, which is a failure of \<open>ReadAndForward\<close> that is neither a JSON encoding error
  nor a write error.
\<close>

theorem BatchProcess_zero_batchSize_counterexample:
  "BatchProcess sampleEnv [] sampleFiles ''images/'' ''path/to/Flyers'' 0 = None \<and>
   ReadAndForward sampleEnv [] ''images/'' ''path/to/Flyers'' 0 = None \<and>
   ReadAndForward sampleEnv [] ''images/'' ''path/to/Flyers'' (- 1)
     = Some (Panics ''slice bounds out of range'')"
proof -
  have "spawnLoop sampleFiles 0 0 [] = None"
    by (rule spawnLoop_zero_diverges) (simp_all add: sampleFiles_def)
  then have batch: "BatchProcess sampleEnv [] sampleFiles ''images/'' ''path/to/Flyers'' 0 = None"
    by (simp add: BatchProcess_def)
  have "ReadDir sampleEnv ''images/'' = (sampleFiles, None)"
    by (simp add: sampleEnv_def)
  with batch have "ReadAndForward sampleEnv [] ''images/'' ''path/to/Flyers'' 0 = None"
    by (simp add: ReadAndForward_def)
  moreover have "ReadAndForward sampleEnv [] ''images/'' ''path/to/Flyers'' (- 1)
     = Some (Panics ''slice bounds out of range'')"
    by code_simp
  ultimately show ?thesis using batch by simp
qed

text \<open>
  Claim C10, amended. \<open>BatchProcess\<close> never returns an error other than \<open>nil\<close>, and
  for a batch size of at least 1 it does return; so the branch
  \<open>error processing files\<close> of \<open>ReadAndForward\<close> is never taken. Once the listing has
  succeeded, \<open>ReadAndForward\<close> returns when the batch size is at least 1, and an error
  it returns comes from \<open>json.MarshalIndent\<close> or from \<open>os.WriteFile\<close>, after the catalog
  and the metadata have been built.
\<close>

theorem BatchProcess_error_always_nil:
  "(\<forall>flyers err logged.
      BatchProcess e sched files imageFolder folderURL batchSize
        = Some (Returns ((flyers, err), logged)) \<longrightarrow> err = None) \<and>
   (1 \<le> batchSize \<and> batchSize < 2 ^ 63 \<and> length files < 2 ^ 62 \<longrightarrow>
      (\<exists>flyers logged.
         BatchProcess e sched files imageFolder folderURL batchSize
           = Some (Returns ((flyers, None), logged)))) \<and>
   (1 \<le> batchSize \<and> batchSize < 2 ^ 63 \<and> length files < 2 ^ 62 \<and>
    ReadDir e imageFolder = (files, None) \<longrightarrow>
      (\<exists>r. ReadAndForward e sched imageFolder folderURL batchSize = Some (Returns r))) \<and>
   (\<forall>r err.
      ReadDir e imageFolder = (files, None) \<and>
      ReadAndForward e sched imageFolder folderURL batchSize = Some (Returns r) \<and>
      returned r = Some err \<longrightarrow>
      (\<exists>metadata flyersData.
         documents r = Some (metadata, flyersData) \<and>
         ((\<exists>x. MarshalIndentFlyersData e flyersData '''' ''  '' = Inl x \<and>
               err = GoError (''error encoding JSON: '' @ message x)) \<or>
          (\<exists>x. MarshalIndentMetadata e metadata '''' '' '' = Inl x \<and>
               err = GoError (''error encoding JSON: '' @ message x)) \<or>
          (\<exists>x jsonData. MarshalIndentFlyersData e flyersData '''' ''  '' = Inr jsonData \<and>
               WriteFile e ''flyers.json'' jsonData 420 = Some x \<and>
               err = GoError (''error writing flyer JSON file '' @ message x)) \<or>
          (\<exists>x metaJsonData. MarshalIndentMetadata e metadata '''' '' '' = Inr metaJsonData \<and>
               WriteFile e ''imagesMetadata.json'' metaJsonData 420 = Some x \<and>
               err = GoError (''error writing metadata JSON file '' @ message x)))))"
proof (intro conjI allI impI)
  fix flyers err logged
  assume "BatchProcess e sched files imageFolder folderURL batchSize
        = Some (Returns ((flyers, err), logged))"
  then show "err = None" by (rule BatchProcess_error_nil)
next
  assume "1 \<le> batchSize \<and> batchSize < 2 ^ 63 \<and> length files < 2 ^ 62"
  then show "\<exists>flyers logged.
         BatchProcess e sched files imageFolder folderURL batchSize
           = Some (Returns ((flyers, None), logged))"
    using BatchProcess_returns [of batchSize files e sched imageFolder folderURL] by blast
next
  assume "1 \<le> batchSize \<and> batchSize < 2 ^ 63 \<and> length files < 2 ^ 62 \<and>
    ReadDir e imageFolder = (files, None)"
  then show "\<exists>r. ReadAndForward e sched imageFolder folderURL batchSize = Some (Returns r)"
    using ReadAndForward_reaches_documents [of e imageFolder files batchSize sched folderURL] by blast
next
  fix r err
  assume "ReadDir e imageFolder = (files, None) \<and>
      ReadAndForward e sched imageFolder folderURL batchSize = Some (Returns r) \<and>
      returned r = Some err"
  then show "\<exists>metadata flyersData.
         documents r = Some (metadata, flyersData) \<and>
         ((\<exists>x. MarshalIndentFlyersData e flyersData '''' ''  '' = Inl x \<and>
               err = GoError (''error encoding JSON: '' @ message x)) \<or>
          (\<exists>x. MarshalIndentMetadata e metadata '''' '' '' = Inl x \<and>
               err = GoError (''error encoding JSON: '' @ message x)) \<or>
          (\<exists>x jsonData. MarshalIndentFlyersData e flyersData '''' ''  '' = Inr jsonData \<and>
               WriteFile e ''flyers.json'' jsonData 420 = Some x \<and>
               err = GoError (''error writing flyer JSON file '' @ message x)) \<or>
          (\<exists>x metaJsonData. MarshalIndentMetadata e metadata '''' '' '' = Inr metaJsonData \<and>
               WriteFile e ''imagesMetadata.json'' metaJsonData 420 = Some x \<and>
               err = GoError (''error writing metadata JSON file '' @ message x)))"
    using ReadAndForward_failure_points [of e imageFolder files sched folderURL batchSize r err]
    by blast
qed

text \<open>The sample machine, and the same machine with a full disk.\<close>

theorem BatchProcess_error_always_nil_witness:
  "(\<exists>flyers logged.
      BatchProcess sampleEnv [] sampleFiles ''images/'' ''path/to/Flyers'' 10
        = Some (Returns ((flyers, None), logged))) \<and>
   (\<exists>r. ReadAndForward sampleEnv [] ''images/'' ''path/to/Flyers'' 10 = Some (Returns r)) \<and>
   (\<exists>r metadata flyersData jsonData.
      ReadAndForward (sampleEnv\<lparr>WriteFile := \<lambda>name data perm. Some (GoError ''disk full'')\<rparr>)
        [] ''images/'' ''path/to/Flyers'' 10 = Some (Returns r) \<and>
      documents r = Some (metadata, flyersData) \<and>
      returned r = Some (GoError ''error writing flyer JSON file disk full''))"
proof -
  let ?full = "sampleEnv\<lparr>WriteFile := \<lambda>name data perm. Some (GoError ''disk full'')\<rparr>"
  note ok = BatchProcess_error_always_nil
      [of sampleEnv "[]" sampleFiles "''images/''" "''path/to/Flyers''" 10]
  note full = BatchProcess_error_always_nil
      [of ?full "[]" sampleFiles "''images/''" "''path/to/Flyers''" 10]
  have small: "(1::int) \<le> 10 \<and> (10::int) < 2 ^ 63 \<and> length sampleFiles < 2 ^ 62"
    by (simp add: sampleFiles_def)
  have listed: "ReadDir sampleEnv ''images/'' = (sampleFiles, None)"
    "ReadDir ?full ''images/'' = (sampleFiles, None)"
    by (simp_all add: sampleEnv_def)
  from ok small have first: "\<exists>flyers logged.
      BatchProcess sampleEnv [] sampleFiles ''images/'' ''path/to/Flyers'' 10
        = Some (Returns ((flyers, None), logged))"
    by blast
  from ok small listed(1)
  have second: "\<exists>r. ReadAndForward sampleEnv [] ''images/'' ''path/to/Flyers'' 10 = Some (Returns r)"
    by blast
  from full small listed(2)
  obtain r where run: "ReadAndForward ?full [] ''images/'' ''path/to/Flyers'' 10 = Some (Returns r)"
    by blast
  have "case ReadAndForward ?full [] ''images/'' ''path/to/Flyers'' 10 of
          Some (Returns r) \<Rightarrow>
            returned r = Some (GoError ''error writing flyer JSON file disk full'')
        | _ \<Rightarrow> False"
    by code_simp
  with run have failed: "returned r = Some (GoError ''error writing flyer JSON file disk full'')"
    by simp
  with full listed(2) run obtain metadata flyersData where
    docs: "documents r = Some (metadata, flyersData)"
    by blast
  have third: "\<exists>r metadata flyersData jsonData.
      ReadAndForward ?full [] ''images/'' ''path/to/Flyers'' 10 = Some (Returns r) \<and>
      documents r = Some (metadata, flyersData) \<and>
      returned r = Some (GoError ''error writing flyer JSON file disk full'')"
    by (intro exI conjI) (fact run docs failed)+
  from first second third show ?thesis by (intro conjI)
qed


end
